theory Spec2Isabelle
  imports Main "HOL-Library.Word"
begin

unbundle bit_operations_syntax

section \<open>Data model\<close>

text \<open>
  The resolver of \<^verbatim>\<open>pkg/version/version.go\<close>. The packages it imports
  (\<^verbatim>\<open>pkg/api\<close>, the registry clients, \<^verbatim>\<open>masterminds/semver\<close>, the cache helpers
  of the same package) are not part of the translated file; what the code uses of them
  is declared here, as data or as a parameter.
\<close>

text \<open>\<^verbatim>\<open>time.Time\<close> as an instant (nanoseconds on one clock); \<^verbatim>\<open>t.After(u)\<close>.\<close>

type_synonym Time = int

definition After :: "Time \<Rightarrow> Time \<Rightarrow> bool" where
  "After t u = (u < t)"

text \<open>
  Modelled from the spec: \<^verbatim>\<open>api.ImageTag\<close> (its declaration is in \<^verbatim>\<open>pkg/api\<close>):
  a tag label, a content digest and the time of the last push.
\<close>

record ImageTag =
  Tag :: string
  SHA :: string
  Timestamp :: Time

type_synonym int64 = "64 word"

text \<open>
  Modelled from the spec: \<^verbatim>\<open>api.Options\<close> (its declaration is in \<^verbatim>\<open>pkg/api\<close>).
  The pins are \<^verbatim>\<open>*int64\<close> (nil is \<open>None\<close>); \<^verbatim>\<open>RegexMatcher\<close> is a
  \<^verbatim>\<open>*regexp.Regexp\<close>, kept as its \<^verbatim>\<open>MatchString\<close> predicate.
\<close>

record Options =
  UseSHA :: bool
  UsePreRelease :: bool
  PinMajor :: "int64 option"
  PinMinor :: "int64 option"
  PinPatch :: "int64 option"
  RegexMatcher :: "(string \<Rightarrow> bool) option"

text \<open>
  The errors of \<^verbatim>\<open>semver.NewVersion\<close>: the sentinel \<^verbatim>\<open>ErrInvalidSemVer\<close>,
  which \<^verbatim>\<open>latestSemver\<close> compares against, and any other error value.
\<close>

datatype semver_error = ErrInvalidSemVer | ErrParse string

type_synonym client_error = string
type_synonym json_error = string

text \<open>The error values the package builds, one constructor per message.\<close>

datatype error =
    FailedToGetTags string client_error
      \<comment> \<open>\<^verbatim>\<open>failed to get tags from remote registry for %q: %s\<close>\<close>
  | NoTagsFound string
      \<comment> \<open>\<^verbatim>\<open>no tags found for given image URL: %q\<close>\<close>
  | SemverError semver_error
      \<comment> \<open>an error of \<^verbatim>\<open>semver.NewVersion\<close>, returned as it is\<close>
  | NoImageFound Options
      \<comment> \<open>\<^verbatim>\<open>no image found with those option constraints: %+v\<close>\<close>
  | NoLatestSHA
      \<comment> \<open>\<^verbatim>\<open>failed to find latest image based on SHA\<close>\<close>
  | FailedToMarshal json_error
      \<comment> \<open>\<^verbatim>\<open>failed to marshal options: %s\<close>\<close>
  | FailedToHash
      \<comment> \<open>\<^verbatim>\<open>failed to calculate image hash: %s\<close>\<close>

text \<open>
  A \<^verbatim>\<open>*api.ImageTag\<close> returned by a selector points into the slice it was given:
  nil is \<open>None\<close>, \<^verbatim>\<open>&tags[i]\<close> is \<open>Some i\<close>.
\<close>

type_synonym ImageTag_ptr = "nat option"

section \<open>Selection by timestamp\<close>

text \<open>
  The loop of \<^verbatim>\<open>latestSHA\<close> over the indices still to visit, with the
  variable \<^verbatim>\<open>latestTag\<close>.
\<close>

fun latestSHA_loop :: "ImageTag list \<Rightarrow> nat list \<Rightarrow> ImageTag_ptr \<Rightarrow> ImageTag_ptr" where
  "latestSHA_loop tags [] latestTag = latestTag"
| "latestSHA_loop tags (i # is) latestTag =
     latestSHA_loop tags is
       (case latestTag of
          None \<Rightarrow> Some i
        | Some l \<Rightarrow>
            if After (Timestamp (tags ! i)) (Timestamp (tags ! l)) then Some i else Some l)"

definition latestSHA :: "ImageTag list \<Rightarrow> ImageTag_ptr \<times> error option" where
  "latestSHA tags =
     (case latestSHA_loop tags [0..<length tags] None of
        None \<Rightarrow> (None, Some NoLatestSHA)
      | Some i \<Rightarrow> (Some i, None))"

section \<open>Selection by semantic version\<close>

text \<open>
  \<^verbatim>\<open>github.com/masterminds/semver\<close> is a library outside the repository, so it is a
  parameter: the parser \<^verbatim>\<open>NewVersion\<close> (a version or an error), the accessors
  \<^verbatim>\<open>latestSemver\<close> reads and the comparison \<^verbatim>\<open>LessThan\<close>, over any type \<open>'v\<close>
  of parsed versions.
\<close>

record 'v semver =
  NewVersion :: "string \<Rightarrow> semver_error + 'v"
  Prerelease :: "'v \<Rightarrow> string"
  Major :: "'v \<Rightarrow> int64"
  Minor :: "'v \<Rightarrow> int64"
  Patch :: "'v \<Rightarrow> int64"
  LessThan :: "'v \<Rightarrow> 'v \<Rightarrow> bool"

text \<open>
  One pass through the body of the loop of \<^verbatim>\<open>latestSemver\<close> at index \<open>i\<close>, on
  the variables \<^verbatim>\<open>latestImageTag\<close> and \<^verbatim>\<open>latestSemVer\<close>: \<open>Inl\<close> is the
  \<^verbatim>\<open>return nil, err\<close> inside the loop, \<open>Inr\<close> the variables after the pass (unchanged
  by a \<^verbatim>\<open>continue\<close>).
\<close>

definition latestSemver_body ::
  "'v semver \<Rightarrow> Options \<Rightarrow> ImageTag list \<Rightarrow> nat \<Rightarrow> ImageTag_ptr \<times> 'v option
     \<Rightarrow> error + ImageTag_ptr \<times> 'v option" where
  "latestSemver_body S opts tags i st =
     (case st of (latestImageTag, latestSemVer) \<Rightarrow>
        (case NewVersion S (Tag (tags ! i)) of
           Inl err \<Rightarrow>
             if err = ErrInvalidSemVer then Inr st
             else Inl (SemverError err)
         | Inr v \<Rightarrow>
             if (case RegexMatcher opts of None \<Rightarrow> False
                 | Some re \<Rightarrow> \<not> re (Tag (tags ! i))) then Inr st
             else if Prerelease S v \<noteq> [] \<and> \<not> UsePreRelease opts then Inr st
             else if (case PinMajor opts of None \<Rightarrow> False
                      | Some p \<Rightarrow> Major S v \<noteq> p) then Inr st
             else if (case PinMinor opts of None \<Rightarrow> False
                      | Some p \<Rightarrow> Minor S v \<noteq> p) then Inr st
             else if (case PinPatch opts of None \<Rightarrow> False
                      | Some p \<Rightarrow> Patch S v \<noteq> p) then Inr st
             else if (case latestSemVer of None \<Rightarrow> True
                      | Some l \<Rightarrow> LessThan S l v) then Inr (Some i, Some v)
             else Inr st))"

fun latestSemver_loop ::
  "'v semver \<Rightarrow> Options \<Rightarrow> ImageTag list \<Rightarrow> nat list \<Rightarrow> ImageTag_ptr \<times> 'v option
     \<Rightarrow> error + ImageTag_ptr \<times> 'v option" where
  "latestSemver_loop S opts tags [] st = Inr st"
| "latestSemver_loop S opts tags (i # is) st =
     (case latestSemver_body S opts tags i st of
        Inl err \<Rightarrow> Inl err
      | Inr st' \<Rightarrow> latestSemver_loop S opts tags is st')"

definition latestSemver ::
  "'v semver \<Rightarrow> Options \<Rightarrow> ImageTag list \<Rightarrow> ImageTag_ptr \<times> error option" where
  "latestSemver S opts tags =
     (case latestSemver_loop S opts tags [0..<length tags] (None, None) of
        Inl err \<Rightarrow> (None, Some err)
      | Inr (latestImageTag, latestSemVer) \<Rightarrow>
          (case latestImageTag of
             None \<Rightarrow> (None, Some (NoImageFound opts))
           | Some i \<Rightarrow> (Some i, None)))"

text \<open>
  The filters in the words of the specification: a tag survives when its text parses,
  the configured pattern (if any) matches the text, a pre-release is allowed or the
  version is none, and every pin that is set equals its component.
\<close>

definition survives :: "'v semver \<Rightarrow> Options \<Rightarrow> ImageTag \<Rightarrow> bool" where
  "survives S opts t =
     (case NewVersion S (Tag t) of
        Inl err \<Rightarrow> False
      | Inr v \<Rightarrow>
          (case RegexMatcher opts of None \<Rightarrow> True | Some re \<Rightarrow> re (Tag t))
          \<and> (Prerelease S v = [] \<or> UsePreRelease opts)
          \<and> (case PinMajor opts of None \<Rightarrow> True | Some p \<Rightarrow> Major S v = p)
          \<and> (case PinMinor opts of None \<Rightarrow> True | Some p \<Rightarrow> Minor S v = p)
          \<and> (case PinPatch opts of None \<Rightarrow> True | Some p \<Rightarrow> Patch S v = p))"

text \<open>The tag's parse fails with an error that is not \<^verbatim>\<open>ErrInvalidSemVer\<close>.\<close>

definition parse_fails :: "'v semver \<Rightarrow> ImageTag \<Rightarrow> bool" where
  "parse_fails S t =
     (case NewVersion S (Tag t) of
        Inl err \<Rightarrow> err \<noteq> ErrInvalidSemVer
      | Inr v \<Rightarrow> False)"

text \<open>
  \<^verbatim>\<open>LessThan\<close> is a strict weak order on the versions of the surviving tags of a
  list: no two are each less than the other, and a version that is not above a second
  one, which is not above a third, is not above the third.
\<close>

definition survivors :: "'v semver \<Rightarrow> Options \<Rightarrow> ImageTag list \<Rightarrow> 'v set" where
  "survivors S opts tags =
     {v. \<exists>t \<in> set tags. survives S opts t \<and> NewVersion S (Tag t) = Inr v}"

definition ordered_on :: "'v semver \<Rightarrow> 'v set \<Rightarrow> bool" where
  "ordered_on S V =
     ((\<forall>a\<in>V. \<forall>b\<in>V. LessThan S a b \<longrightarrow> \<not> LessThan S b a)
      \<and> (\<forall>a\<in>V. \<forall>b\<in>V. \<forall>c\<in>V. LessThan S a c \<longrightarrow> LessThan S a b \<or> LessThan S b c))"

text \<open>What a returned pointer points to, next to the error.\<close>

definition deref :: "ImageTag list \<Rightarrow> ImageTag_ptr \<times> error option
    \<Rightarrow> ImageTag option \<times> error option" where
  "deref tags r = (map_option (\<lambda>i. tags ! i) (fst r), snd r)"

text \<open>
  Among the first \<open>n\<close> tags, index \<open>i\<close> (with version \<open>v\<close>) is the first greatest
  survivor: no survivor is above it and every survivor before it is strictly below.
\<close>

definition selected :: "'v semver \<Rightarrow> Options \<Rightarrow> ImageTag list \<Rightarrow> nat \<Rightarrow> nat \<Rightarrow> 'v \<Rightarrow> bool" where
  "selected S opts tags n i v =
     (i < n \<and> survives S opts (tags ! i) \<and> NewVersion S (Tag (tags ! i)) = Inr v
      \<and> (\<forall>j<n. \<forall>w. survives S opts (tags ! j) \<and> NewVersion S (Tag (tags ! j)) = Inr w
            \<longrightarrow> \<not> LessThan S v w)
      \<and> (\<forall>j<i. \<forall>w. survives S opts (tags ! j) \<and> NewVersion S (Tag (tags ! j)) = Inr w
            \<longrightarrow> LessThan S w v))"

text \<open>The tags whose text is not rejected with \<^verbatim>\<open>ErrInvalidSemVer\<close>, in their order.\<close>

definition valid_tags :: "'v semver \<Rightarrow> ImageTag list \<Rightarrow> ImageTag list" where
  "valid_tags S tags = filter (\<lambda>t. NewVersion S (Tag t) \<noteq> Inl ErrInvalidSemVer) tags"

text \<open>The sublist of the tags whose text parses, whatever the filters say of them.\<close>

definition parsable_tags :: "'v semver \<Rightarrow> ImageTag list \<Rightarrow> ImageTag list" where
  "parsable_tags S tags =
     filter (\<lambda>t. case NewVersion S (Tag t) of Inl err \<Rightarrow> False | Inr v \<Rightarrow> True) tags"

text \<open>
  Two runs of the loop, over two slices, end alike: with the same error, or with the
  same version and pointers to equal tags.
\<close>

definition same_outcome ::
  "ImageTag list \<Rightarrow> ImageTag list \<Rightarrow> error + ImageTag_ptr \<times> 'v option
     \<Rightarrow> error + ImageTag_ptr \<times> 'v option \<Rightarrow> bool" where
  "same_outcome tags tags' r r' =
     (case r of
        Inl err \<Rightarrow> r' = Inl err
      | Inr st \<Rightarrow>
          (case r' of
             Inl err' \<Rightarrow> False
           | Inr st' \<Rightarrow> snd st' = snd st
               \<and> map_option (\<lambda>i. tags ! i) (fst st) = map_option (\<lambda>i. tags' ! i) (fst st')))"

section \<open>The version getter\<close>

text \<open>
  The three registry clients held by \<^verbatim>\<open>VersionGetter\<close> (its fields \<^verbatim>\<open>quay\<close>,
  \<^verbatim>\<open>gcr\<close> and \<^verbatim>\<open>docker\<close>). Their packages are not part of the translated file:
  what \<^verbatim>\<open>IsClient\<close> answers and what \<^verbatim>\<open>Tags\<close> returns (a slice and an error, as
  in Go) are parameters, together with the two readings of the clock (the one the cache
  lookup compares against, and \<^verbatim>\<open>time.Now()\<close> at the store).
\<close>

datatype Client = Quay | GCR | Docker

record 'c World =
  IsClient :: "Client \<Rightarrow> string \<Rightarrow> bool"
  Tags :: "Client \<Rightarrow> 'c \<Rightarrow> string \<Rightarrow> ImageTag list \<times> client_error option"
  Now_lookup :: Time
  Now_store :: Time

text \<open>The state of the \<^verbatim>\<open>sync.RWMutex\<close>: free, held by readers, or held by a writer.\<close>

datatype RWMutex = Unlocked | RLocked nat | Locked

text \<open>
  \<^verbatim>\<open>imageCacheItem\<close>, with the two fields the composite literal of
  \<^verbatim>\<open>allTagsFromImage\<close> sets: \<^verbatim>\<open>timestamp\<close> and \<^verbatim>\<open>tags\<close> (here
  \<open>item_tags\<close>, to keep the name \<open>tags\<close> for tag lists).
\<close>

record imageCacheItem =
  timestamp :: Time
  item_tags :: "ImageTag list"

text \<open>
  The mutable part of \<^verbatim>\<open>VersionGetter\<close>: the time-to-live, the mutex and the map
  from image URL to cache item.
\<close>

record VersionGetter =
  cacheTimeout :: int
  cacheMu :: RWMutex
  imageCache :: "string \<rightharpoonup> imageCacheItem"

text \<open>
  What a call does besides returning: the calls to the registry clients, the log line
  and the assignment to the cache's map, the latter with the state of \<^verbatim>\<open>cacheMu\<close> at
  that moment.
\<close>

datatype event =
    CallIsClient Client string
  | CallTags Client string
  | LogDebugf string
  | StoreImageCache string RWMutex

text \<open>\<^verbatim>\<open>New\<close>: an empty cache and a free mutex (the collector it starts is not modelled).\<close>

definition New :: "int \<Rightarrow> VersionGetter" where
  "New timeout = \<lparr>cacheTimeout = timeout, cacheMu = Unlocked, imageCache = Map.empty\<rparr>"

text \<open>
  Modelled from the spec: \<^verbatim>\<open>tryImageCache\<close> (the cache helpers of the package are
  not under \<^verbatim>\<open>src/\<close>). The lookup returns the cached tag list only if an entry exists
  and its age is strictly less than the configured time-to-live; otherwise it reports
  not-found. It changes nothing.
\<close>

definition tryImageCache :: "VersionGetter \<Rightarrow> Time \<Rightarrow> string \<Rightarrow> ImageTag list \<times> bool" where
  "tryImageCache v now imageURL =
     (case imageCache v imageURL of
        None \<Rightarrow> ([], False)
      | Some item \<Rightarrow>
          if now - timestamp item < cacheTimeout v then (item_tags item, True)
          else ([], False))"

text \<open>
  \<^verbatim>\<open>clientFromImage\<close>: the cases of the \<^verbatim>\<open>switch\<close> are evaluated in order, each
  one a call of \<^verbatim>\<open>IsClient\<close>.
\<close>

definition clientFromImage :: "'c World \<Rightarrow> string \<Rightarrow> Client \<times> event list" where
  "clientFromImage W imageURL =
     (if IsClient W Quay imageURL then
        (Quay, [CallIsClient Quay imageURL])
      else if IsClient W GCR imageURL then
        (GCR, [CallIsClient Quay imageURL, CallIsClient GCR imageURL])
      else if IsClient W Docker imageURL then
        (Docker, [CallIsClient Quay imageURL, CallIsClient GCR imageURL,
                  CallIsClient Docker imageURL])
      else
        (Docker, [CallIsClient Quay imageURL, CallIsClient GCR imageURL,
                  CallIsClient Docker imageURL]))"

text \<open>
  \<^verbatim>\<open>allTagsFromImage\<close> returns the pair of Go (the slice, nil as \<open>[]\<close>, and the
  error), the version getter after the call and the events of the call.
\<close>

definition allTagsFromImage ::
  "'c World \<Rightarrow> VersionGetter \<Rightarrow> 'c \<Rightarrow> string
     \<Rightarrow> (ImageTag list \<times> error option) \<times> VersionGetter \<times> event list" where
  "allTagsFromImage W v ctx imageURL =
     (case tryImageCache v (Now_lookup W) imageURL of
        (cached, ok) \<Rightarrow>
          if ok then ((cached, None), v, [])
          else
            (case clientFromImage W imageURL of
               (client, asked) \<Rightarrow>
                 (case Tags W client ctx imageURL of
                    (fetched, err) \<Rightarrow>
                      (case err of
                         Some e \<Rightarrow>
                           (([], Some (FailedToGetTags imageURL e)), v,
                            asked @ [CallTags client imageURL])
                       | None \<Rightarrow>
                           if length fetched = 0 then
                             (([], Some (NoTagsFound imageURL)), v,
                              asked @ [CallTags client imageURL])
                           else
                             ((fetched, None),
                              v\<lparr>imageCache := (imageCache v)(imageURL \<mapsto>
                                  \<lparr>timestamp = Now_store W, item_tags = fetched\<rparr>)\<rparr>,
                              asked @ [CallTags client imageURL, LogDebugf imageURL,
                                       StoreImageCache imageURL (cacheMu v)])))))"

text \<open>
  \<^verbatim>\<open>LatestTagFromImage\<close>. The pointer a selector returns points into the slice of
  \<^verbatim>\<open>allTagsFromImage\<close>; the result holds the tag it points to. The function reads
  \<^verbatim>\<open>opts.UseSHA\<close> through the pointer it is given, so \<open>opts\<close> is the options value
  pointed to.
\<close>

definition LatestTagFromImage ::
  "'v semver \<Rightarrow> 'c World \<Rightarrow> VersionGetter \<Rightarrow> 'c \<Rightarrow> Options \<Rightarrow> string
     \<Rightarrow> (ImageTag option \<times> error option) \<times> VersionGetter \<times> event list" where
  "LatestTagFromImage S W v ctx opts imageURL =
     (case allTagsFromImage W v ctx imageURL of
        ((found, err), v', events) \<Rightarrow>
          (case err of
             Some e \<Rightarrow> ((None, Some e), v', events)
           | None \<Rightarrow>
               if UseSHA opts then (deref found (latestSHA found), v', events)
               else (deref found (latestSemver S opts found), v', events)))"

section \<open>The option fingerprint\<close>

type_synonym byte = "8 word"

text \<open>\<^verbatim>\<open>[]byte(s)\<close>: a Go string is its bytes.\<close>

definition bytes_of :: "string \<Rightarrow> byte list" where
  "bytes_of s = map of_char s"

text \<open>
  \<^verbatim>\<open>hash/fnv\<close>, 32 bits: \<^verbatim>\<open>New32\<close> starts at the offset basis, \<^verbatim>\<open>Write\<close>
  multiplies the state by the prime and then xors the byte in, for each byte, and
  returns the number of bytes with a nil error; \<^verbatim>\<open>Sum32\<close> reads the state.
\<close>

definition offset32 :: "32 word" where
  "offset32 = 2166136261"

definition prime32 :: "32 word" where
  "prime32 = 16777619"

definition New32 :: "32 word" where
  "New32 = offset32"

fun sum32_loop :: "32 word \<Rightarrow> byte list \<Rightarrow> 32 word" where
  "sum32_loop hash [] = hash"
| "sum32_loop hash (c # data) = sum32_loop ((hash * prime32) XOR ucast c) data"

definition Write :: "32 word \<Rightarrow> byte list \<Rightarrow> 32 word \<times> nat \<times> error option" where
  "Write hash data = (sum32_loop hash data, length data, None)"

definition Sum32 :: "32 word \<Rightarrow> 32 word" where
  "Sum32 hash = hash"

text \<open>\<^verbatim>\<open>fmt.Sprintf("%d", x)\<close> for an unsigned \<open>x\<close>: its decimal digits.\<close>

fun digits :: "nat \<Rightarrow> string" where
  "digits n =
     (if n < 10 then [char_of (48 + n)]
      else digits (n div 10) @ [char_of (48 + n mod 10)])"

definition Sprintf_d :: "32 word \<Rightarrow> string" where
  "Sprintf_d x = digits (unat x)"

text \<open>
  \<^verbatim>\<open>CalculateHashIndex\<close>. \<^verbatim>\<open>json.Marshal\<close> on the options pointer (\<open>None\<close> is
  nil, which it accepts) is a parameter: the struct tags that decide it are in
  \<^verbatim>\<open>pkg/api\<close>. It returns bytes and an error, as in Go.
\<close>

definition CalculateHashIndex ::
  "(Options option \<Rightarrow> byte list \<times> json_error option) \<Rightarrow> string \<Rightarrow> Options option
     \<Rightarrow> string \<times> error option" where
  "CalculateHashIndex json_Marshal imageURL opts =
     (case json_Marshal opts of
        (opsJson, err) \<Rightarrow>
          (case err of
             Some e \<Rightarrow> ([], Some (FailedToMarshal e))
           | None \<Rightarrow>
               (case Write New32 (opsJson @ bytes_of imageURL) of
                  (hash, n, err') \<Rightarrow>
                    (case err' of
                       Some e' \<Rightarrow> ([], Some FailedToHash)
                     | None \<Rightarrow> (Sprintf_d (Sum32 hash), None)))))"

text \<open>
  The fingerprint in the words of the specification: the FNV-1 hash of a byte string
  (32 bits), and the number a decimal rendering denotes; a rendering has at least one
  character, only digits, and no leading zero but for zero itself.
\<close>

definition fnv1_32 :: "byte list \<Rightarrow> 32 word" where
  "fnv1_32 data = foldl (\<lambda>h c. (h * 16777619) XOR ucast c) 2166136261 data"

definition decimal_value :: "string \<Rightarrow> nat" where
  "decimal_value s = foldl (\<lambda>n c. 10 * n + (of_char c - 48)) 0 s"

definition is_decimal :: "string \<Rightarrow> bool" where
  "is_decimal s =
     (s \<noteq> [] \<and> list_all (\<lambda>c. 48 \<le> (of_char c :: nat) \<and> (of_char c :: nat) \<le> 57) s
      \<and> (length s = 1 \<or> hd s \<noteq> CHR ''0''))"

section \<open>Fixtures\<close>

text \<open>
  Fixtures for the checks at concrete inputs. \<open>fx_semver\<close> stands for the library on
  the tag texts used below: versions are (major, minor, patch, pre-release), a leading
  \<^verbatim>\<open>v\<close> is accepted, a version segment beyond 64 bits is an error other than
  \<^verbatim>\<open>ErrInvalidSemVer\<close>, any other text is \<^verbatim>\<open>ErrInvalidSemVer\<close>; a version is less
  than another by major, minor, patch, and then a pre-release is less than the release.
\<close>

type_synonym fx_version = "nat \<times> nat \<times> nat \<times> string"

definition fx_NewVersion :: "string \<Rightarrow> semver_error + fx_version" where
  "fx_NewVersion s =
     (if s = ''1.2.3'' then Inr (1, 2, 3, [])
      else if s = ''1.2.9'' then Inr (1, 2, 9, [])
      else if s = ''1.3.0'' then Inr (1, 3, 0, [])
      else if s = ''v1.3.0'' then Inr (1, 3, 0, [])
      else if s = ''1.3.0-beta'' then Inr (1, 3, 0, ''beta'')
      else if s = ''2.0.0'' then Inr (2, 0, 0, [])
      else if s = ''99999999999999999999'' then Inl (ErrParse ''Error parsing version segment'')
      else Inl ErrInvalidSemVer)"

definition fx_LessThan :: "fx_version \<Rightarrow> fx_version \<Rightarrow> bool" where
  "fx_LessThan a b =
     (case a of (ma, na, pa, ra) \<Rightarrow> case b of (mb, nb, pb, rb) \<Rightarrow>
        ma < mb \<or> (ma = mb \<and> (na < nb \<or> (na = nb \<and> (pa < pb \<or> (pa = pb \<and> ra \<noteq> [] \<and> rb = []))))))"

definition fx_semver :: "fx_version semver" where
  "fx_semver =
     \<lparr>NewVersion = fx_NewVersion,
      Prerelease = (\<lambda>v. snd (snd (snd v))),
      Major = (\<lambda>v. of_nat (fst v)),
      Minor = (\<lambda>v. of_nat (fst (snd v))),
      Patch = (\<lambda>v. of_nat (fst (snd (snd v)))),
      LessThan = fx_LessThan\<rparr>"

definition fx_tag :: "string \<Rightarrow> Time \<Rightarrow> ImageTag" where
  "fx_tag s t = \<lparr>Tag = s, SHA = [], Timestamp = t\<rparr>"

definition fx_options :: Options where
  "fx_options =
     \<lparr>UseSHA = False, UsePreRelease = False, PinMajor = None, PinMinor = None,
      PinPatch = None, RegexMatcher = None\<rparr>"

definition fx_tags :: "ImageTag list" where
  "fx_tags =
     [fx_tag ''1.2.3'' 10, fx_tag ''1.3.0-beta'' 50, fx_tag ''abc'' 50,
      fx_tag ''1.3.0'' 30, fx_tag ''v1.3.0'' 40]"

definition fx_world :: "unit World" where
  "fx_world =
     \<lparr>IsClient = (\<lambda>c url. case c of
          Quay \<Rightarrow> take 8 url = ''quay.io/''
        | GCR \<Rightarrow> take 7 url = ''gcr.io/''
        | Docker \<Rightarrow> take 10 url = ''docker.io/''),
      Tags = (\<lambda>c ctx url.
          if url = ''quay.io/org/app'' then (fx_tags, None)
          else if url = ''gcr.io/org/empty'' then ([], None)
          else ([], Some ''unauthorized'')),
      Now_lookup = 100,
      Now_store = 105\<rparr>"

definition fx_getter :: VersionGetter where
  "fx_getter =
     \<lparr>cacheTimeout = 60, cacheMu = Unlocked,
      imageCache = [''example.com/org/app'' \<mapsto>
        \<lparr>timestamp = 70, item_tags = [fx_tag ''1.2.3'' 10, fx_tag ''2.0.0'' 20]\<rparr>]\<rparr>"

definition fx_Marshal :: "Options option \<Rightarrow> byte list \<times> json_error option" where
  "fx_Marshal opts =
     (case opts of
        None \<Rightarrow> (bytes_of ''null'', None)
      | Some x \<Rightarrow> (bytes_of ''{}'', None))"

section \<open>Facts about the fixtures\<close>

lemma fx_ordered: "ordered_on fx_semver V"
  by (auto simp: ordered_on_def fx_semver_def fx_LessThan_def)

lemmas fx_defs = fx_semver_def fx_NewVersion_def fx_LessThan_def fx_tag_def fx_options_def
  fx_tags_def

section \<open>Properties of the timestamp selection\<close>

lemma latestSHA_loop_append:
  "latestSHA_loop tags (is @ js) st = latestSHA_loop tags js (latestSHA_loop tags is st)"
  by (induction "is" arbitrary: st) simp_all

lemma latestSHA_loop_upt:
  "n \<le> length tags \<Longrightarrow>
   (case latestSHA_loop tags [0..<n] None of
      None \<Rightarrow> n = 0
    | Some i \<Rightarrow> i < n
        \<and> (\<forall>j<n. \<not> After (Timestamp (tags ! j)) (Timestamp (tags ! i)))
        \<and> (\<forall>j<i. After (Timestamp (tags ! i)) (Timestamp (tags ! j))))"
proof (induction n)
  case 0
  show ?case by simp
next
  case (Suc n)
  then have IH: "case latestSHA_loop tags [0..<n] None of
      None \<Rightarrow> n = 0
    | Some i \<Rightarrow> i < n
        \<and> (\<forall>j<n. \<not> After (Timestamp (tags ! j)) (Timestamp (tags ! i)))
        \<and> (\<forall>j<i. After (Timestamp (tags ! i)) (Timestamp (tags ! j)))"
    by simp
  show ?case
  proof (cases "latestSHA_loop tags [0..<n] None")
    case None
    with IH show ?thesis
      by (simp add: latestSHA_loop_append After_def)
  next
    case (Some l)
    with IH have l: "l < n"
      and mx: "\<forall>j<n. \<not> After (Timestamp (tags ! j)) (Timestamp (tags ! l))"
      and fst: "\<forall>j<l. After (Timestamp (tags ! l)) (Timestamp (tags ! j))"
      by simp_all
    show ?thesis
    proof (cases "After (Timestamp (tags ! n)) (Timestamp (tags ! l))")
      case True
      have "\<forall>j<Suc n. \<not> After (Timestamp (tags ! j)) (Timestamp (tags ! n))"
        using mx True by (auto simp: After_def less_Suc_eq)
      moreover have "\<forall>j<n. After (Timestamp (tags ! n)) (Timestamp (tags ! j))"
        using mx True by (fastforce simp: After_def)
      ultimately show ?thesis
        using Some True by (simp add: latestSHA_loop_append)
    next
      case False
      have "\<forall>j<Suc n. \<not> After (Timestamp (tags ! j)) (Timestamp (tags ! l))"
        using mx False by (auto simp: less_Suc_eq)
      then show ?thesis
        using Some False l fst by (simp add: latestSHA_loop_append)
    qed
  qed
qed

text \<open>
  C5. On a non-empty tag list \<^verbatim>\<open>latestSHA\<close> returns a pointer to the first tag whose
  timestamp is the latest of the list (no tag is later, every earlier tag is strictly
  older), whatever the tag texts are; it returns the error exactly when the list is
  empty.
\<close>

theorem latestSHA_first_latest:
  "(tags \<noteq> [] \<longrightarrow>
      (\<exists>i<length tags. latestSHA tags = (Some i, None)
         \<and> (\<forall>j<length tags. Timestamp (tags ! j) \<le> Timestamp (tags ! i))
         \<and> (\<forall>j<i. Timestamp (tags ! j) < Timestamp (tags ! i))))
   \<and> ((latestSHA tags = (None, Some NoLatestSHA)) = (tags = []))
   \<and> ((snd (latestSHA tags) \<noteq> None) = (tags = []))"
proof (cases "latestSHA_loop tags [0..<length tags] None")
  case None
  with latestSHA_loop_upt [of "length tags" tags] show ?thesis
    by (simp add: latestSHA_def)
next
  case (Some i)
  with latestSHA_loop_upt [of "length tags" tags]
  have i: "i < length tags"
    and mx: "\<forall>j<length tags. \<not> After (Timestamp (tags ! j)) (Timestamp (tags ! i))"
    and fst: "\<forall>j<i. After (Timestamp (tags ! i)) (Timestamp (tags ! j))"
    by simp_all
  from i have ne: "tags \<noteq> []" by auto
  have "\<forall>j<length tags. Timestamp (tags ! j) \<le> Timestamp (tags ! i)"
    using mx by (simp add: After_def not_less)
  moreover have "\<forall>j<i. Timestamp (tags ! j) < Timestamp (tags ! i)"
    using fst by (simp add: After_def)
  ultimately show ?thesis
    using Some i ne by (simp add: latestSHA_def)
qed

theorem latestSHA_first_latest_witness:
  "fx_tags \<noteq> [] \<and> latestSHA fx_tags = (Some 1, None)
   \<and> Timestamp (fx_tags ! 1) = 50 \<and> Timestamp (fx_tags ! 2) = 50
   \<and> latestSHA [] = (None, Some NoLatestSHA)"
  using latestSHA_first_latest [of fx_tags] latestSHA_first_latest [of "[]"]
  by (simp add: latestSHA_def fx_defs After_def upt_rec)

section \<open>Properties of the selection by semantic version\<close>

lemma latestSemver_loop_append:
  "latestSemver_loop S opts tags (is @ js) st =
     (case latestSemver_loop S opts tags is st of
        Inl err \<Rightarrow> Inl err
      | Inr st' \<Rightarrow> latestSemver_loop S opts tags js st')"
  by (induction "is" arbitrary: st) (simp_all split: sum.splits)

lemma body_skipped:
  "\<not> survives S opts (tags ! i) \<Longrightarrow> \<not> parse_fails S (tags ! i) \<Longrightarrow>
   latestSemver_body S opts tags i st = Inr st"
  by (auto simp: latestSemver_body_def survives_def parse_fails_def
      split: sum.splits option.splits prod.splits)

lemma body_survivor:
  "survives S opts (tags ! i) \<Longrightarrow> NewVersion S (Tag (tags ! i)) = Inr v \<Longrightarrow>
   latestSemver_body S opts tags i (p, l) =
     (if (case l of None \<Rightarrow> True | Some u \<Rightarrow> LessThan S u v)
      then Inr (Some i, Some v) else Inr (p, l))"
  by (auto simp: latestSemver_body_def survives_def split: option.splits)

lemma body_fails:
  "NewVersion S (Tag (tags ! i)) = Inl err \<Longrightarrow> err \<noteq> ErrInvalidSemVer \<Longrightarrow>
   latestSemver_body S opts tags i st = Inl (SemverError err)"
  by (simp add: latestSemver_body_def split: prod.splits)

lemma survives_parsed:
  "survives S opts t \<Longrightarrow> \<exists>v. NewVersion S (Tag t) = Inr v"
  by (auto simp: survives_def split: sum.splits)

lemma survivorsI:
  "j < length tags \<Longrightarrow> survives S opts (tags ! j) \<Longrightarrow> NewVersion S (Tag (tags ! j)) = Inr w \<Longrightarrow>
   w \<in> survivors S opts tags"
  unfolding survivors_def by (auto intro!: bexI [of _ "tags ! j"])

lemma latestSemver_loop_upt:
  assumes ord: "ordered_on S (survivors S opts tags)"
    and nf: "\<forall>j<length tags. \<not> parse_fails S (tags ! j)"
  shows "n \<le> length tags \<Longrightarrow>
    (\<exists>p l. latestSemver_loop S opts tags [0..<n] (None, None) = Inr (p, l)
       \<and> (case p of
            None \<Rightarrow> l = None \<and> (\<forall>j<n. \<not> survives S opts (tags ! j))
          | Some i \<Rightarrow> \<exists>v. l = Some v \<and> selected S opts tags n i v))"
proof (induction n)
  case 0
  show ?case by simp
next
  case (Suc n)
  then have n: "n < length tags" by simp
  from Suc obtain p l where
    loop: "latestSemver_loop S opts tags [0..<n] (None, None) = Inr (p, l)"
    and inv: "case p of
            None \<Rightarrow> l = None \<and> (\<forall>j<n. \<not> survives S opts (tags ! j))
          | Some i \<Rightarrow> \<exists>v. l = Some v \<and> selected S opts tags n i v"
    by auto
  have step: "latestSemver_loop S opts tags [0..<Suc n] (None, None) =
      latestSemver_body S opts tags n (p, l)"
    using loop by (simp add: latestSemver_loop_append split: sum.splits)
  from nf n have nfn: "\<not> parse_fails S (tags ! n)" by simp
  show ?case
  proof (cases "survives S opts (tags ! n)")
    case False
    then have "latestSemver_body S opts tags n (p, l) = Inr (p, l)"
      using nfn by (rule body_skipped)
    moreover have "case p of
            None \<Rightarrow> l = None \<and> (\<forall>j<Suc n. \<not> survives S opts (tags ! j))
          | Some i \<Rightarrow> \<exists>v. l = Some v \<and> selected S opts tags (Suc n) i v"
      using inv False by (auto simp: selected_def less_Suc_eq split: option.splits)
    ultimately show ?thesis using step by simp
  next
    case True
    then obtain v where v: "NewVersion S (Tag (tags ! n)) = Inr v"
      using survives_parsed by blast
    have vV: "v \<in> survivors S opts tags"
      using n True v by (rule survivorsI)
    have irr: "\<not> LessThan S v v"
      using ord vV unfolding ordered_on_def by blast
    show ?thesis
    proof (cases p)
      case None
      with inv have l: "l = None" and none: "\<forall>j<n. \<not> survives S opts (tags ! j)"
        by simp_all
      have "latestSemver_body S opts tags n (p, l) = Inr (Some n, Some v)"
        using True v l by (simp add: body_survivor)
      moreover have "selected S opts tags (Suc n) n v"
        using True v none irr by (auto simp: selected_def less_Suc_eq)
      ultimately show ?thesis using step by simp
    next
      case (Some i)
      with inv obtain u where l: "l = Some u" and sel: "selected S opts tags n i u"
        by auto
      from sel have i: "i < n" and si: "survives S opts (tags ! i)"
        and ui: "NewVersion S (Tag (tags ! i)) = Inr u"
        and mx: "\<forall>j<n. \<forall>w. survives S opts (tags ! j) \<and> NewVersion S (Tag (tags ! j)) = Inr w
            \<longrightarrow> \<not> LessThan S u w"
        and fst: "\<forall>j<i. \<forall>w. survives S opts (tags ! j) \<and> NewVersion S (Tag (tags ! j)) = Inr w
            \<longrightarrow> LessThan S w u"
        by (simp_all add: selected_def)
      have uV: "u \<in> survivors S opts tags"
        using survivorsI [of i tags S opts u] i n si ui by simp
      show ?thesis
      proof (cases "LessThan S u v")
        case lt: True
        have below: "LessThan S w v"
          if "j < n" "survives S opts (tags ! j)" "NewVersion S (Tag (tags ! j)) = Inr w" for j w
        proof -
          have wV: "w \<in> survivors S opts tags"
            using survivorsI [of j tags S opts w] that n by simp
          have "\<not> LessThan S u w" using mx that by blast
          moreover have "LessThan S u w \<or> LessThan S w v"
            using ord uV wV vV lt unfolding ordered_on_def by blast
          ultimately show ?thesis by blast
        qed
        have above: "\<not> LessThan S v w"
          if "j < Suc n" "survives S opts (tags ! j)" "NewVersion S (Tag (tags ! j)) = Inr w" for j w
        proof (cases "j = n")
          case True
          with that v irr show ?thesis by simp
        next
          case False
          with that have jn: "j < n" by simp
          have wV: "w \<in> survivors S opts tags"
            using survivorsI [of j tags S opts w] that jn n by simp
          have "LessThan S w v" using below jn that by blast
          then show ?thesis
            using ord wV vV unfolding ordered_on_def by blast
        qed
        have "latestSemver_body S opts tags n (p, l) = Inr (Some n, Some v)"
          using True v l lt by (simp add: body_survivor)
        moreover have "selected S opts tags (Suc n) n v"
          unfolding selected_def using True v below above by blast
        ultimately show ?thesis using step by simp
      next
        case nlt: False
        have "latestSemver_body S opts tags n (p, l) = Inr (p, l)"
          using True v l nlt by (simp add: body_survivor)
        moreover have "selected S opts tags (Suc n) i u"
          unfolding selected_def using i si ui mx fst nlt v
          by (auto simp: less_Suc_eq)
        ultimately show ?thesis using step Some l by simp
      qed
    qed
  qed
qed

lemma body_no_failure:
  "\<not> parse_fails S (tags ! i) \<Longrightarrow> \<exists>st'. latestSemver_body S opts tags i st = Inr st'"
  by (auto simp: latestSemver_body_def parse_fails_def split: sum.splits prod.splits)

lemma loop_no_failure:
  "\<forall>i\<in>set is. \<not> parse_fails S (tags ! i) \<Longrightarrow>
   \<exists>st'. latestSemver_loop S opts tags is st = Inr st'"
proof (induction "is" arbitrary: st)
  case Nil
  show ?case by simp
next
  case (Cons i "is")
  then obtain st' where "latestSemver_body S opts tags i st = Inr st'"
    using body_no_failure [of S tags i opts st] by auto
  with Cons show ?case by simp
qed

lemma loop_first_failure:
  assumes k: "k < n"
    and before: "\<forall>j<k. \<not> parse_fails S (tags ! j)"
    and err: "NewVersion S (Tag (tags ! k)) = Inl err" "err \<noteq> ErrInvalidSemVer"
  shows "latestSemver_loop S opts tags [0..<n] st = Inl (SemverError err)"
proof -
  have "[0..<n] = [0..<k] @ [k..<n]"
    using upt_add_eq_append [of 0 k "n - k"] k by simp
  then have split: "[0..<n] = [0..<k] @ k # [Suc k..<n]"
    using k by (simp add: upt_conv_Cons)
  obtain st' where "latestSemver_loop S opts tags [0..<k] st = Inr st'"
    using loop_no_failure [of "[0..<k]" S tags opts st] before by auto
  then show ?thesis
    using err by (simp add: split latestSemver_loop_append body_fails)
qed

lemma ex_least_failure:
  "\<exists>k<n. parse_fails S (tags ! k) \<Longrightarrow>
   \<exists>k<n. parse_fails S (tags ! k) \<and> (\<forall>j<k. \<not> parse_fails S (tags ! j))"
proof -
  assume "\<exists>k<n. parse_fails S (tags ! k)"
  then obtain k where k: "k < n \<and> parse_fails S (tags ! k)" by blast
  define m where "m = (LEAST k. k < n \<and> parse_fails S (tags ! k))"
  have "m < n \<and> parse_fails S (tags ! m)"
    unfolding m_def using k by (rule LeastI)
  moreover have "\<not> parse_fails S (tags ! j)" if "j < m" for j
  proof
    assume "parse_fails S (tags ! j)"
    moreover have "j < n" using that \<open>m < n \<and> parse_fails S (tags ! m)\<close> by simp
    ultimately have "m \<le> j" unfolding m_def by (simp add: Least_le)
    with that show False by simp
  qed
  ultimately show ?thesis by blast
qed

lemma latestSemver_cases:
  assumes ord: "ordered_on S (survivors S opts tags)"
  shows "(if \<exists>k<length tags. parse_fails S (tags ! k)
      then \<exists>k<length tags. \<exists>err. (\<forall>j<k. \<not> parse_fails S (tags ! j))
             \<and> NewVersion S (Tag (tags ! k)) = Inl err \<and> err \<noteq> ErrInvalidSemVer
             \<and> latestSemver S opts tags = (None, Some (SemverError err))
      else if \<exists>t\<in>set tags. survives S opts t
      then \<exists>i<length tags. \<exists>v. latestSemver S opts tags = (Some i, None)
             \<and> survives S opts (tags ! i) \<and> NewVersion S (Tag (tags ! i)) = Inr v
             \<and> (\<forall>j<length tags. \<forall>w. survives S opts (tags ! j)
                    \<and> NewVersion S (Tag (tags ! j)) = Inr w \<longrightarrow> \<not> LessThan S v w)
             \<and> (\<forall>j<i. \<forall>w. survives S opts (tags ! j)
                    \<and> NewVersion S (Tag (tags ! j)) = Inr w \<longrightarrow> LessThan S w v)
      else latestSemver S opts tags = (None, Some (NoImageFound opts)))"
proof (cases "\<exists>k<length tags. parse_fails S (tags ! k)")
  case True
  then obtain k where k: "k < length tags" and pf: "parse_fails S (tags ! k)"
    and before: "\<forall>j<k. \<not> parse_fails S (tags ! j)"
    using ex_least_failure [of "length tags" S tags] by blast
  from pf obtain err where err: "NewVersion S (Tag (tags ! k)) = Inl err" "err \<noteq> ErrInvalidSemVer"
    by (auto simp: parse_fails_def split: sum.splits)
  have "latestSemver S opts tags = (None, Some (SemverError err))"
    using loop_first_failure [OF k before err] by (simp add: latestSemver_def)
  with k before err True show ?thesis by auto
next
  case False
  then have nf: "\<forall>j<length tags. \<not> parse_fails S (tags ! j)" by blast
  obtain p l where loop: "latestSemver_loop S opts tags [0..<length tags] (None, None) = Inr (p, l)"
    and inv: "case p of
            None \<Rightarrow> l = None \<and> (\<forall>j<length tags. \<not> survives S opts (tags ! j))
          | Some i \<Rightarrow> \<exists>v. l = Some v \<and> selected S opts tags (length tags) i v"
    using latestSemver_loop_upt [OF ord nf, of "length tags"] by auto
  show ?thesis
  proof (cases p)
    case None
    with inv have "\<forall>j<length tags. \<not> survives S opts (tags ! j)" by simp
    then have "\<not> (\<exists>t\<in>set tags. survives S opts t)"
      by (auto simp: in_set_conv_nth)
    moreover have "latestSemver S opts tags = (None, Some (NoImageFound opts))"
      using loop None by (simp add: latestSemver_def)
    ultimately show ?thesis using False by simp
  next
    case (Some i)
    with inv obtain v where sel: "selected S opts tags (length tags) i v" by auto
    then have "i < length tags" "survives S opts (tags ! i)" by (simp_all add: selected_def)
    then have ex: "\<exists>t\<in>set tags. survives S opts t" using nth_mem by blast
    have "latestSemver S opts tags = (Some i, None)"
      using loop Some by (simp add: latestSemver_def)
    with sel have goal: "\<exists>i<length tags. \<exists>v. latestSemver S opts tags = (Some i, None)
             \<and> survives S opts (tags ! i) \<and> NewVersion S (Tag (tags ! i)) = Inr v
             \<and> (\<forall>j<length tags. \<forall>w. survives S opts (tags ! j)
                    \<and> NewVersion S (Tag (tags ! j)) = Inr w \<longrightarrow> \<not> LessThan S v w)
             \<and> (\<forall>j<i. \<forall>w. survives S opts (tags ! j)
                    \<and> NewVersion S (Tag (tags ! j)) = Inr w \<longrightarrow> LessThan S w v)"
      unfolding selected_def by blast
    show ?thesis
      unfolding if_not_P [OF False] if_P [OF ex] by (rule goal)
  qed
qed

text \<open>
  C1, as amended. Let \<^verbatim>\<open>LessThan\<close> be a strict weak order on the versions of the
  surviving tags. If some tag's parse fails with an error other than
  \<^verbatim>\<open>ErrInvalidSemVer\<close>, \<^verbatim>\<open>latestSemver\<close> returns the error of the first such tag,
  whatever survives. Otherwise, when at least one tag survives the filters it returns
  a pointer to the first tag whose version is greatest among the survivors (no
  survivor is above it, every earlier survivor is strictly below it), and when none
  survives it returns the no-match error that carries the options.
\<close>

theorem latestSemver_first_greatest:
  assumes ord: "ordered_on S (survivors S opts tags)"
  shows "((\<exists>k<length tags. parse_fails S (tags ! k)) \<longrightarrow>
        (\<exists>k<length tags. \<exists>err. (\<forall>j<k. \<not> parse_fails S (tags ! j))
           \<and> NewVersion S (Tag (tags ! k)) = Inl err \<and> err \<noteq> ErrInvalidSemVer
           \<and> latestSemver S opts tags = (None, Some (SemverError err))))
     \<and> (\<not> (\<exists>k<length tags. parse_fails S (tags ! k)) \<longrightarrow>
        ((\<exists>t\<in>set tags. survives S opts t) \<longrightarrow>
           (\<exists>i<length tags. \<exists>v. latestSemver S opts tags = (Some i, None)
              \<and> survives S opts (tags ! i) \<and> NewVersion S (Tag (tags ! i)) = Inr v
              \<and> (\<forall>j<length tags. \<forall>w. survives S opts (tags ! j)
                     \<and> NewVersion S (Tag (tags ! j)) = Inr w \<longrightarrow> \<not> LessThan S v w)
              \<and> (\<forall>j<i. \<forall>w. survives S opts (tags ! j)
                     \<and> NewVersion S (Tag (tags ! j)) = Inr w \<longrightarrow> LessThan S w v)))
        \<and> ((latestSemver S opts tags = (None, Some (NoImageFound opts))) =
             (\<not> (\<exists>t\<in>set tags. survives S opts t))))"
proof (intro conjI impI)
  assume "\<exists>k<length tags. parse_fails S (tags ! k)"
  with latestSemver_cases [OF ord]
  show "\<exists>k<length tags. \<exists>err. (\<forall>j<k. \<not> parse_fails S (tags ! j))
           \<and> NewVersion S (Tag (tags ! k)) = Inl err \<and> err \<noteq> ErrInvalidSemVer
           \<and> latestSemver S opts tags = (None, Some (SemverError err))"
    by (simp only: if_True)
next
  assume nf: "\<not> (\<exists>k<length tags. parse_fails S (tags ! k))"
    and ex: "\<exists>t\<in>set tags. survives S opts t"
  show "\<exists>i<length tags. \<exists>v. latestSemver S opts tags = (Some i, None)
              \<and> survives S opts (tags ! i) \<and> NewVersion S (Tag (tags ! i)) = Inr v
              \<and> (\<forall>j<length tags. \<forall>w. survives S opts (tags ! j)
                     \<and> NewVersion S (Tag (tags ! j)) = Inr w \<longrightarrow> \<not> LessThan S v w)
              \<and> (\<forall>j<i. \<forall>w. survives S opts (tags ! j)
                     \<and> NewVersion S (Tag (tags ! j)) = Inr w \<longrightarrow> LessThan S w v)"
    using latestSemver_cases [OF ord] unfolding if_not_P [OF nf] if_P [OF ex] .
next
  assume nf: "\<not> (\<exists>k<length tags. parse_fails S (tags ! k))"
  show "(latestSemver S opts tags = (None, Some (NoImageFound opts))) =
      (\<not> (\<exists>t\<in>set tags. survives S opts t))"
  proof (cases "\<exists>t\<in>set tags. survives S opts t")
    case True
    have "\<exists>i. latestSemver S opts tags = (Some i, None)"
      using latestSemver_cases [OF ord] unfolding if_not_P [OF nf] if_P [OF True] by blast
    with True show ?thesis by auto
  next
    case False
    have "latestSemver S opts tags = (None, Some (NoImageFound opts))"
      using latestSemver_cases [OF ord] unfolding if_not_P [OF nf] if_not_P [OF False] .
    with False show ?thesis by simp
  qed
qed

theorem latestSemver_first_greatest_witness:
  "ordered_on fx_semver (survivors fx_semver fx_options fx_tags)
   \<and> latestSemver fx_semver fx_options fx_tags = (Some 3, None)
   \<and> Tag (fx_tags ! 3) = ''1.3.0''
   \<and> latestSemver fx_semver (fx_options\<lparr>PinMajor := Some 3\<rparr>) fx_tags =
       (None, Some (NoImageFound (fx_options\<lparr>PinMajor := Some 3\<rparr>)))"
proof -
  have ord: "ordered_on fx_semver (survivors fx_semver opts fx_tags)" for opts
    by (rule fx_ordered)
  have a: "latestSemver fx_semver fx_options fx_tags = (Some 3, None)"
    using latestSemver_first_greatest [OF ord, of fx_options]
    by (simp add: latestSemver_def latestSemver_body_def fx_defs upt_rec)
  have b: "latestSemver fx_semver (fx_options\<lparr>PinMajor := Some 3\<rparr>) fx_tags =
       (None, Some (NoImageFound (fx_options\<lparr>PinMajor := Some 3\<rparr>)))"
    by (simp add: latestSemver_def latestSemver_body_def fx_defs upt_rec)
  show ?thesis using ord a b by (simp add: fx_tags_def fx_tag_def)
qed

theorem latestSemver_error_counterexample:
  "\<not> UseSHA fx_options
   \<and> survives fx_semver fx_options (fx_tag ''1.2.3'' 10)
   \<and> latestSemver fx_semver fx_options
         [fx_tag ''1.2.3'' 10, fx_tag ''99999999999999999999'' 20] =
       (None, Some (SemverError (ErrParse ''Error parsing version segment'')))
   \<and> \<not> survives fx_semver fx_options (fx_tag ''99999999999999999999'' 20)
   \<and> latestSemver fx_semver fx_options [fx_tag ''99999999999999999999'' 20] \<noteq>
       (None, Some (NoImageFound fx_options))"
  by (simp add: latestSemver_def latestSemver_body_def survives_def fx_defs upt_rec)

lemma body_eq:
  "latestSemver_body S opts tags i (p, l) =
     (case NewVersion S (Tag (tags ! i)) of
        Inl err \<Rightarrow> if err = ErrInvalidSemVer then Inr (p, l) else Inl (SemverError err)
      | Inr v \<Rightarrow>
          if survives S opts (tags ! i) \<and> (case l of None \<Rightarrow> True | Some u \<Rightarrow> LessThan S u v)
          then Inr (Some i, Some v) else Inr (p, l))"
  by (auto simp: latestSemver_body_def survives_def split: sum.splits option.splits)

lemma body_same_outcome:
  assumes "tags ! i = tags' ! i'"
    and "map_option (\<lambda>i. tags ! i) p = map_option (\<lambda>i. tags' ! i) p'"
  shows "same_outcome tags tags' (latestSemver_body S opts tags i (p, l))
     (latestSemver_body S opts tags' i' (p', l))"
  using assms by (simp add: body_eq same_outcome_def split: sum.splits)

lemma loop_same_outcome:
  "map (\<lambda>i. tags ! i) is = map (\<lambda>i. tags' ! i) is' \<Longrightarrow>
   map_option (\<lambda>i. tags ! i) p = map_option (\<lambda>i. tags' ! i) p' \<Longrightarrow>
   same_outcome tags tags' (latestSemver_loop S opts tags is (p, l))
     (latestSemver_loop S opts tags' is' (p', l))"
proof (induction "is" arbitrary: is' p p' l)
  case Nil
  then show ?case by (simp add: same_outcome_def)
next
  case (Cons i "is")
  then obtain i' js where is': "is' = i' # js" and hd: "tags ! i = tags' ! i'"
    and tl: "map (\<lambda>i. tags ! i) is = map (\<lambda>i. tags' ! i) js"
    by (cases is') auto
  have b: "same_outcome tags tags' (latestSemver_body S opts tags i (p, l))
     (latestSemver_body S opts tags' i' (p', l))"
    using hd Cons.prems(2) by (rule body_same_outcome)
  show ?case
  proof (cases "latestSemver_body S opts tags i (p, l)")
    case (Inl err)
    with b show ?thesis by (simp add: is' same_outcome_def)
  next
    case (Inr st)
    with b obtain st' where st': "latestSemver_body S opts tags' i' (p', l) = Inr st'"
      and eq: "snd st' = snd st"
        "map_option (\<lambda>i. tags ! i) (fst st) = map_option (\<lambda>i. tags' ! i) (fst st')"
      by (auto simp: same_outcome_def split: sum.splits)
    have "same_outcome tags tags' (latestSemver_loop S opts tags is (fst st, snd st))
       (latestSemver_loop S opts tags' js (fst st', snd st))"
      using tl eq(2) by (rule Cons.IH)
    moreover have "st' = (fst st', snd st)"
      using eq(1) by (cases st') simp
    ultimately have "same_outcome tags tags' (latestSemver_loop S opts tags is st)
       (latestSemver_loop S opts tags' js st')"
      by simp
    then show ?thesis using Inr st' by (simp add: is')
  qed
qed

lemma loop_skips_invalid:
  "latestSemver_loop S opts tags
      (filter (\<lambda>i. NewVersion S (Tag (tags ! i)) \<noteq> Inl ErrInvalidSemVer) is) st =
   latestSemver_loop S opts tags is st"
proof (induction "is" arbitrary: st)
  case Nil
  show ?case by simp
next
  case (Cons i "is")
  show ?case
  proof (cases "NewVersion S (Tag (tags ! i)) = Inl ErrInvalidSemVer")
    case True
    obtain p l where st: "st = (p, l)" by (cases st)
    have "latestSemver_body S opts tags i st = Inr st"
      using True by (simp add: st body_eq)
    then show ?thesis using True Cons by simp
  next
    case False
    then show ?thesis using Cons by (simp split: sum.splits)
  qed
qed

lemma valid_tags_indices:
  "map (\<lambda>i. tags ! i)
      (filter (\<lambda>i. NewVersion S (Tag (tags ! i)) \<noteq> Inl ErrInvalidSemVer) [0..<length tags]) =
   map (\<lambda>i. valid_tags S tags ! i) [0..<length (valid_tags S tags)]"
proof -
  have "map (\<lambda>i. tags ! i)
      (filter (\<lambda>i. NewVersion S (Tag (tags ! i)) \<noteq> Inl ErrInvalidSemVer) [0..<length tags]) =
    filter (\<lambda>t. NewVersion S (Tag t) \<noteq> Inl ErrInvalidSemVer) (map (\<lambda>i. tags ! i) [0..<length tags])"
    by (simp add: filter_map comp_def)
  then show ?thesis by (simp add: map_nth valid_tags_def)
qed

lemma valid_tags_parsable:
  "\<forall>t\<in>set tags. \<not> parse_fails S t \<Longrightarrow> valid_tags S tags = parsable_tags S tags"
  unfolding valid_tags_def parsable_tags_def
  by (rule filter_cong) (auto simp: parse_fails_def split: sum.splits)

lemma latestSemver_valid_tags:
  "deref tags (latestSemver S opts tags) =
   deref (valid_tags S tags) (latestSemver S opts (valid_tags S tags))"
proof -
  have "same_outcome tags (valid_tags S tags)
      (latestSemver_loop S opts tags
         (filter (\<lambda>i. NewVersion S (Tag (tags ! i)) \<noteq> Inl ErrInvalidSemVer) [0..<length tags])
         (None, None))
      (latestSemver_loop S opts (valid_tags S tags) [0..<length (valid_tags S tags)] (None, None))"
    by (rule loop_same_outcome [OF valid_tags_indices]) simp
  then have "same_outcome tags (valid_tags S tags)
      (latestSemver_loop S opts tags [0..<length tags] (None, None))
      (latestSemver_loop S opts (valid_tags S tags) [0..<length (valid_tags S tags)] (None, None))"
    by (simp only: loop_skips_invalid)
  then show ?thesis
    by (auto simp: same_outcome_def latestSemver_def deref_def split: sum.splits option.splits)
qed

lemma latestSemver_loop_survivor:
  assumes nf: "\<forall>j<length tags. \<not> parse_fails S (tags ! j)"
  shows "n \<le> length tags \<Longrightarrow>
    (\<exists>p l. latestSemver_loop S opts tags [0..<n] (None, None) = Inr (p, l)
       \<and> (case p of
            None \<Rightarrow> l = None \<and> (\<forall>j<n. \<not> survives S opts (tags ! j))
          | Some i \<Rightarrow> i < n \<and> survives S opts (tags ! i) \<and> l \<noteq> None))"
proof (induction n)
  case 0
  show ?case by simp
next
  case (Suc n)
  then have n: "n < length tags" by simp
  from Suc obtain p l where
    loop: "latestSemver_loop S opts tags [0..<n] (None, None) = Inr (p, l)"
    and inv: "case p of
            None \<Rightarrow> l = None \<and> (\<forall>j<n. \<not> survives S opts (tags ! j))
          | Some i \<Rightarrow> i < n \<and> survives S opts (tags ! i) \<and> l \<noteq> None"
    by auto
  have step: "latestSemver_loop S opts tags [0..<Suc n] (None, None) =
      latestSemver_body S opts tags n (p, l)"
    using loop by (simp add: latestSemver_loop_append split: sum.splits)
  from nf n have nfn: "\<not> parse_fails S (tags ! n)" by simp
  show ?case
  proof (cases "survives S opts (tags ! n)")
    case False
    then have "latestSemver_body S opts tags n (p, l) = Inr (p, l)"
      using nfn by (rule body_skipped)
    moreover have "case p of
            None \<Rightarrow> l = None \<and> (\<forall>j<Suc n. \<not> survives S opts (tags ! j))
          | Some i \<Rightarrow> i < Suc n \<and> survives S opts (tags ! i) \<and> l \<noteq> None"
      using inv False by (auto simp: less_Suc_eq split: option.splits)
    ultimately show ?thesis using step by simp
  next
    case True
    then obtain v where v: "NewVersion S (Tag (tags ! n)) = Inr v"
      using survives_parsed by blast
    have body: "latestSemver_body S opts tags n (p, l) =
        (if (case l of None \<Rightarrow> True | Some u \<Rightarrow> LessThan S u v)
         then Inr (Some n, Some v) else Inr (p, l))"
      using True v by (rule body_survivor)
    show ?thesis
    proof (cases "case l of None \<Rightarrow> True | Some u \<Rightarrow> LessThan S u v")
      case taken: True
      then show ?thesis using step body True by simp
    next
      case kept: False
      then have l: "l \<noteq> None" by (auto split: option.splits)
      with inv obtain i where p: "p = Some i" and i: "i < n" "survives S opts (tags ! i)"
        by (cases p) auto
      show ?thesis using step body kept p i l by simp
    qed
  qed
qed

lemma latestSemver_no_failure:
  assumes nf: "\<forall>t\<in>set tags. \<not> parse_fails S t"
  shows "if \<exists>t\<in>set tags. survives S opts t
     then \<exists>i<length tags. latestSemver S opts tags = (Some i, None)
            \<and> survives S opts (tags ! i)
     else latestSemver S opts tags = (None, Some (NoImageFound opts))"
proof -
  from nf have nf': "\<forall>j<length tags. \<not> parse_fails S (tags ! j)" by simp
  obtain p l where loop: "latestSemver_loop S opts tags [0..<length tags] (None, None) = Inr (p, l)"
    and inv: "case p of
            None \<Rightarrow> l = None \<and> (\<forall>j<length tags. \<not> survives S opts (tags ! j))
          | Some i \<Rightarrow> i < length tags \<and> survives S opts (tags ! i) \<and> l \<noteq> None"
    using latestSemver_loop_survivor [OF nf', of "length tags" opts] by auto
  show ?thesis
  proof (cases p)
    case None
    with inv have "\<forall>j<length tags. \<not> survives S opts (tags ! j)" by simp
    then have "\<not> (\<exists>t\<in>set tags. survives S opts t)"
      by (auto simp: in_set_conv_nth)
    moreover have "latestSemver S opts tags = (None, Some (NoImageFound opts))"
      using loop None by (simp add: latestSemver_def)
    ultimately show ?thesis by simp
  next
    case (Some i)
    with inv have i: "i < length tags" "survives S opts (tags ! i)" by simp_all
    then have ex: "\<exists>t\<in>set tags. survives S opts t" using nth_mem by blast
    have "latestSemver S opts tags = (Some i, None)"
      using loop Some by (simp add: latestSemver_def)
    with i ex show ?thesis by auto
  qed
qed

lemma latestSemver_failure:
  assumes "\<exists>k<length tags. parse_fails S (tags ! k)"
  shows "\<exists>k<length tags. \<exists>err. (\<forall>j<k. \<not> parse_fails S (tags ! j))
           \<and> NewVersion S (Tag (tags ! k)) = Inl err \<and> err \<noteq> ErrInvalidSemVer
           \<and> latestSemver S opts tags = (None, Some (SemverError err))"
proof -
  from assms obtain k where k: "k < length tags" and pf: "parse_fails S (tags ! k)"
    and before: "\<forall>j<k. \<not> parse_fails S (tags ! j)"
    using ex_least_failure [of "length tags" S tags] by blast
  from pf obtain err where err: "NewVersion S (Tag (tags ! k)) = Inl err" "err \<noteq> ErrInvalidSemVer"
    by (auto simp: parse_fails_def split: sum.splits)
  have "latestSemver S opts tags = (None, Some (SemverError err))"
    using loop_first_failure [OF k before err] by (simp add: latestSemver_def)
  with k before err show ?thesis by auto
qed

text \<open>
  C2, as amended. A tag whose text \<^verbatim>\<open>semver.NewVersion\<close> rejects with
  \<^verbatim>\<open>ErrInvalidSemVer\<close> is skipped and never causes an error: on every tag list the
  result (the tag the returned pointer points to, or the error) equals the result on
  the sublist without those tags. When no tag's parse fails with another error, that is
  the result on the sublist of parsable tags, and the result is a pointer to a
  surviving tag when one survives and the no-match error otherwise, never a parse
  error. A tag whose parse fails with an error other than \<^verbatim>\<open>ErrInvalidSemVer\<close> is not
  skipped: \<^verbatim>\<open>latestSemver\<close> returns the error of the first such tag.
\<close>

theorem latestSemver_skips_invalid:
  "deref tags (latestSemver S opts tags) =
     deref (valid_tags S tags) (latestSemver S opts (valid_tags S tags))
   \<and> ((\<forall>t\<in>set tags. \<not> parse_fails S t) \<longrightarrow>
        deref tags (latestSemver S opts tags) =
          deref (parsable_tags S tags) (latestSemver S opts (parsable_tags S tags))
        \<and> (if \<exists>t\<in>set tags. survives S opts t
            then \<exists>i<length tags. latestSemver S opts tags = (Some i, None)
                   \<and> survives S opts (tags ! i)
            else latestSemver S opts tags = (None, Some (NoImageFound opts))))
   \<and> ((\<exists>k<length tags. parse_fails S (tags ! k)) \<longrightarrow>
        (\<exists>k<length tags. \<exists>err. (\<forall>j<k. \<not> parse_fails S (tags ! j))
           \<and> NewVersion S (Tag (tags ! k)) = Inl err \<and> err \<noteq> ErrInvalidSemVer
           \<and> latestSemver S opts tags = (None, Some (SemverError err))))"
proof (intro conjI impI)
  show "deref tags (latestSemver S opts tags) =
     deref (valid_tags S tags) (latestSemver S opts (valid_tags S tags))"
    by (rule latestSemver_valid_tags)
next
  assume nf: "\<forall>t\<in>set tags. \<not> parse_fails S t"
  then show "deref tags (latestSemver S opts tags) =
          deref (parsable_tags S tags) (latestSemver S opts (parsable_tags S tags))"
    using latestSemver_valid_tags [of tags S opts] valid_tags_parsable [of tags S] by simp
  from nf show "if \<exists>t\<in>set tags. survives S opts t
            then \<exists>i<length tags. latestSemver S opts tags = (Some i, None)
                   \<and> survives S opts (tags ! i)
            else latestSemver S opts tags = (None, Some (NoImageFound opts))"
    by (rule latestSemver_no_failure)
next
  assume "\<exists>k<length tags. parse_fails S (tags ! k)"
  then show "\<exists>k<length tags. \<exists>err. (\<forall>j<k. \<not> parse_fails S (tags ! j))
           \<and> NewVersion S (Tag (tags ! k)) = Inl err \<and> err \<noteq> ErrInvalidSemVer
           \<and> latestSemver S opts tags = (None, Some (SemverError err))"
    by (rule latestSemver_failure)
qed

theorem latestSemver_skips_invalid_witness:
  "(\<not> parse_fails fx_semver (fx_tags ! 0) \<and> \<not> parse_fails fx_semver (fx_tags ! 1)
     \<and> \<not> parse_fails fx_semver (fx_tags ! 2) \<and> \<not> parse_fails fx_semver (fx_tags ! 3)
     \<and> \<not> parse_fails fx_semver (fx_tags ! 4))
   \<and> length fx_tags = 5
   \<and> parsable_tags fx_semver fx_tags =
       [fx_tag ''1.2.3'' 10, fx_tag ''1.3.0-beta'' 50, fx_tag ''1.3.0'' 30, fx_tag ''v1.3.0'' 40]
   \<and> deref fx_tags (latestSemver fx_semver fx_options fx_tags) =
       (Some (fx_tag ''1.3.0'' 30), None)
   \<and> deref (parsable_tags fx_semver fx_tags)
         (latestSemver fx_semver fx_options (parsable_tags fx_semver fx_tags)) =
       (Some (fx_tag ''1.3.0'' 30), None)
   \<and> survives fx_semver fx_options (fx_tags ! 3)
   \<and> parse_fails fx_semver
        ([fx_tag ''1.2.9'' 7, fx_tag ''abc'' 8, fx_tag ''99999999999999999999'' 9] ! 2)
   \<and> latestSemver fx_semver fx_options
        [fx_tag ''1.2.9'' 7, fx_tag ''abc'' 8, fx_tag ''99999999999999999999'' 9] =
       (None, Some (SemverError (ErrParse ''Error parsing version segment'')))"
proof -
  have nf: "\<forall>t\<in>set fx_tags. \<not> parse_fails fx_semver t"
    by (simp add: parse_fails_def fx_defs)
  have a: "deref fx_tags (latestSemver fx_semver fx_options fx_tags) =
       (Some (fx_tag ''1.3.0'' 30), None)"
    by (simp add: deref_def latestSemver_def latestSemver_body_def fx_defs upt_rec)
  have "deref fx_tags (latestSemver fx_semver fx_options fx_tags) =
       deref (parsable_tags fx_semver fx_tags)
         (latestSemver fx_semver fx_options (parsable_tags fx_semver fx_tags))"
    using latestSemver_skips_invalid [of fx_tags fx_semver fx_options] nf by blast
  with a have b: "deref (parsable_tags fx_semver fx_tags)
         (latestSemver fx_semver fx_options (parsable_tags fx_semver fx_tags)) =
       (Some (fx_tag ''1.3.0'' 30), None)"
    by simp
  have c: "parsable_tags fx_semver fx_tags =
       [fx_tag ''1.2.3'' 10, fx_tag ''1.3.0-beta'' 50, fx_tag ''1.3.0'' 30, fx_tag ''v1.3.0'' 40]"
    by (simp add: parsable_tags_def fx_defs)
  have d: "length fx_tags = 5" by (simp add: fx_tags_def)
  have e: "survives fx_semver fx_options (fx_tags ! 3)"
    by (simp add: survives_def fx_defs)
  have f: "parse_fails fx_semver
        ([fx_tag ''1.2.9'' 7, fx_tag ''abc'' 8, fx_tag ''99999999999999999999'' 9] ! 2)"
    by (simp add: parse_fails_def fx_defs)
  then have "\<exists>k<length [fx_tag ''1.2.9'' 7, fx_tag ''abc'' 8, fx_tag ''99999999999999999999'' 9].
      parse_fails fx_semver
        ([fx_tag ''1.2.9'' 7, fx_tag ''abc'' 8, fx_tag ''99999999999999999999'' 9] ! k)"
    by (intro exI [of _ 2]) simp
  with latestSemver_skips_invalid
    [of "[fx_tag ''1.2.9'' 7, fx_tag ''abc'' 8, fx_tag ''99999999999999999999'' 9]"
      fx_semver fx_options]
  obtain err where "latestSemver fx_semver fx_options
        [fx_tag ''1.2.9'' 7, fx_tag ''abc'' 8, fx_tag ''99999999999999999999'' 9] =
       (None, Some (SemverError err))"
    by blast
  moreover have "snd (latestSemver fx_semver fx_options
        [fx_tag ''1.2.9'' 7, fx_tag ''abc'' 8, fx_tag ''99999999999999999999'' 9]) =
       Some (SemverError (ErrParse ''Error parsing version segment''))"
    by (simp add: latestSemver_def latestSemver_body_def fx_defs upt_rec)
  ultimately have g: "latestSemver fx_semver fx_options
        [fx_tag ''1.2.9'' 7, fx_tag ''abc'' 8, fx_tag ''99999999999999999999'' 9] =
       (None, Some (SemverError (ErrParse ''Error parsing version segment'')))"
    by simp
  show ?thesis using nf a b c d e f g by (simp add: fx_tags_def)
qed

theorem latestSemver_unparsable_counterexample:
  "NewVersion fx_semver ''99999999999999999999'' = Inl (ErrParse ''Error parsing version segment'')
   \<and> deref [fx_tag ''2.0.0'' 5, fx_tag ''99999999999999999999'' 6, fx_tag ''1.2.9'' 7]
        (latestSemver fx_semver fx_options
           [fx_tag ''2.0.0'' 5, fx_tag ''99999999999999999999'' 6, fx_tag ''1.2.9'' 7]) =
       (None, Some (SemverError (ErrParse ''Error parsing version segment'')))
   \<and> parsable_tags fx_semver
        [fx_tag ''2.0.0'' 5, fx_tag ''99999999999999999999'' 6, fx_tag ''1.2.9'' 7] =
       [fx_tag ''2.0.0'' 5, fx_tag ''1.2.9'' 7]
   \<and> deref [fx_tag ''2.0.0'' 5, fx_tag ''1.2.9'' 7]
        (latestSemver fx_semver fx_options [fx_tag ''2.0.0'' 5, fx_tag ''1.2.9'' 7]) =
       (Some (fx_tag ''2.0.0'' 5), None)"
  by (simp add: deref_def parsable_tags_def latestSemver_def latestSemver_body_def fx_defs upt_rec)

section \<open>Properties of the version getter\<close>

text \<open>
  C7. \<^verbatim>\<open>clientFromImage\<close> is a total function of the URL and of the clients'
  predicates. It asks quay, then gcr, then docker, stops at the first predicate that
  holds and returns that client; when none holds it returns the docker client.
\<close>

theorem clientFromImage_priority:
  "(IsClient W Quay imageURL \<longrightarrow>
      clientFromImage W imageURL = (Quay, [CallIsClient Quay imageURL]))
   \<and> (\<not> IsClient W Quay imageURL \<and> IsClient W GCR imageURL \<longrightarrow>
      clientFromImage W imageURL =
        (GCR, [CallIsClient Quay imageURL, CallIsClient GCR imageURL]))
   \<and> (\<not> IsClient W Quay imageURL \<and> \<not> IsClient W GCR imageURL \<longrightarrow>
      clientFromImage W imageURL =
        (Docker, [CallIsClient Quay imageURL, CallIsClient GCR imageURL,
                  CallIsClient Docker imageURL]))
   \<and> (\<not> IsClient W Quay imageURL \<and> \<not> IsClient W GCR imageURL
        \<and> \<not> IsClient W Docker imageURL \<longrightarrow>
      fst (clientFromImage W imageURL) = Docker)"
  by (simp add: clientFromImage_def)

theorem clientFromImage_priority_witness:
  "IsClient fx_world Quay ''quay.io/org/app''
   \<and> clientFromImage fx_world ''quay.io/org/app'' =
       (Quay, [CallIsClient Quay ''quay.io/org/app''])
   \<and> \<not> IsClient fx_world Quay ''gcr.io/org/empty''
   \<and> IsClient fx_world GCR ''gcr.io/org/empty''
   \<and> clientFromImage fx_world ''gcr.io/org/empty'' =
       (GCR, [CallIsClient Quay ''gcr.io/org/empty'', CallIsClient GCR ''gcr.io/org/empty''])
   \<and> \<not> IsClient fx_world Quay ''example.com/org/app''
   \<and> \<not> IsClient fx_world GCR ''example.com/org/app''
   \<and> \<not> IsClient fx_world Docker ''example.com/org/app''
   \<and> fst (clientFromImage fx_world ''example.com/org/app'') = Docker"
  using clientFromImage_priority [of fx_world "''quay.io/org/app''"]
    clientFromImage_priority [of fx_world "''gcr.io/org/empty''"]
    clientFromImage_priority [of fx_world "''example.com/org/app''"]
  by (simp add: fx_world_def)

lemma allTagsFromImage_hit:
  "tryImageCache v (Now_lookup W) imageURL = (cached, True) \<Longrightarrow>
   allTagsFromImage W v ctx imageURL = ((cached, None), v, [])"
  by (simp add: allTagsFromImage_def)

lemma allTagsFromImage_miss:
  assumes "snd (tryImageCache v (Now_lookup W) imageURL) = False"
    and "clientFromImage W imageURL = (client, asked)"
    and "Tags W client ctx imageURL = (fetched, err)"
  shows "allTagsFromImage W v ctx imageURL =
     (case err of
        Some e \<Rightarrow>
          (([], Some (FailedToGetTags imageURL e)), v, asked @ [CallTags client imageURL])
      | None \<Rightarrow>
          if fetched = [] then
            (([], Some (NoTagsFound imageURL)), v, asked @ [CallTags client imageURL])
          else
            ((fetched, None),
             v\<lparr>imageCache := (imageCache v)(imageURL \<mapsto>
                 \<lparr>timestamp = Now_store W, item_tags = fetched\<rparr>)\<rparr>,
             asked @ [CallTags client imageURL, LogDebugf imageURL,
                      StoreImageCache imageURL (cacheMu v)]))"
  using assms by (cases "tryImageCache v (Now_lookup W) imageURL")
    (simp add: allTagsFromImage_def split: option.splits)

lemma clientFromImage_no_store:
  "StoreImageCache u m \<notin> set (snd (clientFromImage W imageURL))"
  by (simp add: clientFromImage_def)

text \<open>
  C4. On a cache miss, when the fetch returns an error or no tag,
  \<^verbatim>\<open>allTagsFromImage\<close> returns an error, leaves the version getter as it was and
  makes no assignment to the cache. On every path that returns an error the version
  getter is unchanged, and an assignment to the cache happens only on a miss after a
  fetch that returned no error and at least one tag.
\<close>

theorem allTagsFromImage_error_paths:
  "(\<not> snd (tryImageCache v (Now_lookup W) imageURL)
      \<and> (snd (Tags W (fst (clientFromImage W imageURL)) ctx imageURL) \<noteq> None
          \<or> fst (Tags W (fst (clientFromImage W imageURL)) ctx imageURL) = []) \<longrightarrow>
      fst (fst (allTagsFromImage W v ctx imageURL)) = []
      \<and> snd (fst (allTagsFromImage W v ctx imageURL)) \<noteq> None
      \<and> fst (snd (allTagsFromImage W v ctx imageURL)) = v
      \<and> (\<forall>u m. StoreImageCache u m \<notin> set (snd (snd (allTagsFromImage W v ctx imageURL)))))
   \<and> (snd (fst (allTagsFromImage W v ctx imageURL)) \<noteq> None \<longrightarrow>
      fst (snd (allTagsFromImage W v ctx imageURL)) = v)
   \<and> (fst (snd (allTagsFromImage W v ctx imageURL)) \<noteq> v
        \<or> (\<exists>u m. StoreImageCache u m \<in> set (snd (snd (allTagsFromImage W v ctx imageURL)))) \<longrightarrow>
      \<not> snd (tryImageCache v (Now_lookup W) imageURL)
      \<and> snd (Tags W (fst (clientFromImage W imageURL)) ctx imageURL) = None
      \<and> fst (Tags W (fst (clientFromImage W imageURL)) ctx imageURL) \<noteq> []
      \<and> fst (allTagsFromImage W v ctx imageURL) =
          (fst (Tags W (fst (clientFromImage W imageURL)) ctx imageURL), None))"
proof (cases "snd (tryImageCache v (Now_lookup W) imageURL)")
  case True
  then have "tryImageCache v (Now_lookup W) imageURL =
      (fst (tryImageCache v (Now_lookup W) imageURL), True)"
    by (cases "tryImageCache v (Now_lookup W) imageURL") simp
  then have "allTagsFromImage W v ctx imageURL =
      ((fst (tryImageCache v (Now_lookup W) imageURL), None), v, [])"
    by (rule allTagsFromImage_hit)
  with True show ?thesis by simp
next
  case False
  obtain client asked where c: "clientFromImage W imageURL = (client, asked)"
    by (cases "clientFromImage W imageURL")
  obtain fetched err where t: "Tags W client ctx imageURL = (fetched, err)"
    by (cases "Tags W client ctx imageURL")
  have ns: "StoreImageCache u m \<notin> set asked" for u m
    using clientFromImage_no_store [of u m W imageURL] c by simp
  from False have "snd (tryImageCache v (Now_lookup W) imageURL) = False" by simp
  note eq = allTagsFromImage_miss [OF this c t]
  show ?thesis
  proof (cases err)
    case (Some e)
    with eq False c t ns show ?thesis by simp
  next
    case None
    show ?thesis
    proof (cases "fetched = []")
      case True
      with eq None False c t ns show ?thesis by simp
    next
      case nonempty: False
      with eq None False c t ns show ?thesis by simp
    qed
  qed
qed

theorem allTagsFromImage_error_paths_witness:
  "\<not> snd (tryImageCache (New 60) (Now_lookup fx_world) ''gcr.io/org/empty'')
   \<and> fst (Tags fx_world (fst (clientFromImage fx_world ''gcr.io/org/empty'')) ()
        ''gcr.io/org/empty'') = []
   \<and> allTagsFromImage fx_world (New 60) () ''gcr.io/org/empty'' =
       (([], Some (NoTagsFound ''gcr.io/org/empty'')), New 60,
        [CallIsClient Quay ''gcr.io/org/empty'', CallIsClient GCR ''gcr.io/org/empty'',
         CallTags GCR ''gcr.io/org/empty''])
   \<and> \<not> snd (tryImageCache (New 60) (Now_lookup fx_world) ''docker.io/org/app'')
   \<and> snd (Tags fx_world (fst (clientFromImage fx_world ''docker.io/org/app'')) ()
        ''docker.io/org/app'') = Some ''unauthorized''
   \<and> fst (allTagsFromImage fx_world (New 60) () ''docker.io/org/app'') =
       ([], Some (FailedToGetTags ''docker.io/org/app'' ''unauthorized''))
   \<and> fst (snd (allTagsFromImage fx_world (New 60) () ''docker.io/org/app'')) = New 60
   \<and> fst (snd (allTagsFromImage fx_world (New 60) () ''quay.io/org/app'')) \<noteq> New 60
   \<and> fst (allTagsFromImage fx_world (New 60) () ''quay.io/org/app'') = (fx_tags, None)"
  using allTagsFromImage_error_paths [of "New 60" fx_world "''gcr.io/org/empty''" "()"]
    allTagsFromImage_error_paths [of "New 60" fx_world "''docker.io/org/app''" "()"]
    allTagsFromImage_error_paths [of "New 60" fx_world "''quay.io/org/app''" "()"]
  by (simp add: allTagsFromImage_def tryImageCache_def clientFromImage_def New_def
      fx_world_def fx_tags_def)

text \<open>
  C9. When the lookup reports a hit, \<^verbatim>\<open>allTagsFromImage\<close> returns the tag list of
  the cache entry and no error, asks no client, fetches nothing and returns the version
  getter as it was.
\<close>

theorem allTagsFromImage_cache_hit:
  "snd (tryImageCache v (Now_lookup W) imageURL) \<Longrightarrow>
   allTagsFromImage W v ctx imageURL =
     ((fst (tryImageCache v (Now_lookup W) imageURL), None), v, [])
   \<and> (\<exists>item. imageCache v imageURL = Some item
         \<and> fst (tryImageCache v (Now_lookup W) imageURL) = item_tags item)"
proof -
  assume hit: "snd (tryImageCache v (Now_lookup W) imageURL)"
  then have "tryImageCache v (Now_lookup W) imageURL =
      (fst (tryImageCache v (Now_lookup W) imageURL), True)"
    by (cases "tryImageCache v (Now_lookup W) imageURL") simp
  then have "allTagsFromImage W v ctx imageURL =
      ((fst (tryImageCache v (Now_lookup W) imageURL), None), v, [])"
    by (rule allTagsFromImage_hit)
  moreover have "\<exists>item. imageCache v imageURL = Some item
         \<and> fst (tryImageCache v (Now_lookup W) imageURL) = item_tags item"
    using hit by (auto simp: tryImageCache_def split: option.splits if_splits)
  ultimately show ?thesis by simp
qed

theorem allTagsFromImage_cache_hit_witness:
  "snd (tryImageCache fx_getter (Now_lookup fx_world) ''example.com/org/app'')
   \<and> allTagsFromImage fx_world fx_getter () ''example.com/org/app'' =
       (([fx_tag ''1.2.3'' 10, fx_tag ''2.0.0'' 20], None), fx_getter, [])"
proof -
  have hit: "snd (tryImageCache fx_getter (Now_lookup fx_world) ''example.com/org/app'')"
    by (simp add: tryImageCache_def fx_getter_def fx_world_def)
  have "fst (tryImageCache fx_getter (Now_lookup fx_world) ''example.com/org/app'') =
      [fx_tag ''1.2.3'' 10, fx_tag ''2.0.0'' 20]"
    by (simp add: tryImageCache_def fx_getter_def fx_world_def)
  with allTagsFromImage_cache_hit [OF hit, of "()"] hit show ?thesis by simp
qed

lemma latestSHA_tag_xor_error:
  "(fst (latestSHA found) = None) = (snd (latestSHA found) \<noteq> None)"
  by (simp add: latestSHA_def split: option.splits)

lemma latestSemver_tag_xor_error:
  "(fst (latestSemver S opts found) = None) = (snd (latestSemver S opts found) \<noteq> None)"
  by (simp add: latestSemver_def split: sum.splits option.splits prod.splits)

lemma LatestTagFromImage_eq:
  "LatestTagFromImage S W v ctx opts imageURL =
     (case snd (fst (allTagsFromImage W v ctx imageURL)) of
        Some e \<Rightarrow> ((None, Some e), snd (allTagsFromImage W v ctx imageURL))
      | None \<Rightarrow>
          (deref (fst (fst (allTagsFromImage W v ctx imageURL)))
             (if UseSHA opts then latestSHA (fst (fst (allTagsFromImage W v ctx imageURL)))
              else latestSemver S opts (fst (fst (allTagsFromImage W v ctx imageURL)))),
           snd (allTagsFromImage W v ctx imageURL)))"
  by (simp add: LatestTagFromImage_def split: prod.splits option.splits)

text \<open>
  C6. With \<^verbatim>\<open>UseSHA\<close> set, \<^verbatim>\<open>LatestTagFromImage\<close> does not depend on the other
  option fields (nor on the version library): two option values that both set
  \<^verbatim>\<open>UseSHA\<close> give the same result, the same version getter and the same events.
\<close>

theorem LatestTagFromImage_UseSHA_independent:
  "UseSHA opts \<Longrightarrow> UseSHA opts' \<Longrightarrow>
   LatestTagFromImage S W v ctx opts imageURL = LatestTagFromImage S' W v ctx opts' imageURL"
  by (simp add: LatestTagFromImage_eq)

theorem LatestTagFromImage_UseSHA_independent_witness:
  "UseSHA (fx_options\<lparr>UseSHA := True\<rparr>)
   \<and> UseSHA \<lparr>UseSHA = True, UsePreRelease = True, PinMajor = Some 7, PinMinor = Some 1,
        PinPatch = Some 2, RegexMatcher = Some (\<lambda>s. False)\<rparr>
   \<and> fst (LatestTagFromImage fx_semver fx_world (New 60) () (fx_options\<lparr>UseSHA := True\<rparr>)
        ''quay.io/org/app'') = (Some (fx_tag ''1.3.0-beta'' 50), None)
   \<and> fst (LatestTagFromImage fx_semver fx_world (New 60) ()
        \<lparr>UseSHA = True, UsePreRelease = True, PinMajor = Some 7, PinMinor = Some 1,
         PinPatch = Some 2, RegexMatcher = Some (\<lambda>s. False)\<rparr>
        ''quay.io/org/app'') = (Some (fx_tag ''1.3.0-beta'' 50), None)"
proof -
  have a: "UseSHA (fx_options\<lparr>UseSHA := True\<rparr>)" by simp
  have b: "UseSHA \<lparr>UseSHA = True, UsePreRelease = True, PinMajor = Some 7, PinMinor = Some 1,
        PinPatch = Some 2, RegexMatcher = Some (\<lambda>s. False)\<rparr>" by simp
  have c: "fst (LatestTagFromImage fx_semver fx_world (New 60) () (fx_options\<lparr>UseSHA := True\<rparr>)
        ''quay.io/org/app'') = (Some (fx_tag ''1.3.0-beta'' 50), None)"
    by (simp add: LatestTagFromImage_def allTagsFromImage_def tryImageCache_def
        clientFromImage_def New_def fx_world_def deref_def latestSHA_def After_def fx_defs upt_rec)
  show ?thesis
    using a b c LatestTagFromImage_UseSHA_independent [OF a b, of fx_semver fx_world "New 60" "()"
        "''quay.io/org/app''" fx_semver]
    by simp
qed

text \<open>
  C10. \<^verbatim>\<open>LatestTagFromImage\<close> returns a tag or an error and never both or
  neither: the returned tag is nil exactly when the returned error is not nil. The same
  holds of the two selectors.
\<close>

theorem LatestTagFromImage_tag_xor_error:
  "((fst (fst (LatestTagFromImage S W v ctx opts imageURL)) = None) =
      (snd (fst (LatestTagFromImage S W v ctx opts imageURL)) \<noteq> None))
   \<and> ((fst (latestSemver S opts found) = None) = (snd (latestSemver S opts found) \<noteq> None))
   \<and> ((fst (latestSHA found) = None) = (snd (latestSHA found) \<noteq> None))"
proof -
  have "(fst (fst (LatestTagFromImage S W v ctx opts imageURL)) = None) =
      (snd (fst (LatestTagFromImage S W v ctx opts imageURL)) \<noteq> None)"
    using latestSHA_tag_xor_error [of "fst (fst (allTagsFromImage W v ctx imageURL))"]
      latestSemver_tag_xor_error [of S opts "fst (fst (allTagsFromImage W v ctx imageURL))"]
    by (simp add: LatestTagFromImage_eq deref_def split: option.splits)
  then show ?thesis
    using latestSemver_tag_xor_error [of S opts found] latestSHA_tag_xor_error [of found]
    by blast
qed

theorem LatestTagFromImage_tag_xor_error_witness:
  "fst (LatestTagFromImage fx_semver fx_world (New 60) () fx_options ''quay.io/org/app'') =
     (Some (fx_tag ''1.3.0'' 30), None)
   \<and> fst (LatestTagFromImage fx_semver fx_world (New 60) () (fx_options\<lparr>PinMajor := Some 3\<rparr>)
        ''quay.io/org/app'') = (None, Some (NoImageFound (fx_options\<lparr>PinMajor := Some 3\<rparr>)))
   \<and> fst (LatestTagFromImage fx_semver fx_world (New 60) () fx_options ''gcr.io/org/empty'') =
     (None, Some (NoTagsFound ''gcr.io/org/empty''))"
  using LatestTagFromImage_tag_xor_error [of fx_semver fx_world "New 60" "()" fx_options
      "''quay.io/org/app''" fx_tags]
  by (simp add: LatestTagFromImage_def allTagsFromImage_def tryImageCache_def
      clientFromImage_def New_def fx_world_def deref_def latestSemver_def latestSemver_body_def
      fx_defs upt_rec)

lemma allTagsFromImage_never_locks:
  "cacheMu (fst (snd (allTagsFromImage W v ctx imageURL))) = cacheMu v"
  by (simp add: allTagsFromImage_def split: prod.splits option.splits)

lemma allTagsFromImage_store_mutex:
  "StoreImageCache u m \<in> set (snd (snd (allTagsFromImage W v ctx imageURL))) \<Longrightarrow>
   m = cacheMu v \<and> u = imageURL"
  using clientFromImage_no_store [of u m W imageURL]
  by (auto simp: allTagsFromImage_def split: prod.splits option.splits if_splits)

text \<open>
  C3. The assignment to the cache's map does not hold the lock. On a cold cache, with
  the mutex free, \<^verbatim>\<open>allTagsFromImage\<close> assigns to the map while \<^verbatim>\<open>cacheMu\<close> is
  still free: the function never locks it.
\<close>

theorem allTagsFromImage_store_unlocked:
  "allTagsFromImage fx_world (New 60) () ''quay.io/org/app'' =
     ((fx_tags, None),
      \<lparr>cacheTimeout = 60, cacheMu = Unlocked,
       imageCache = [''quay.io/org/app'' \<mapsto> \<lparr>timestamp = 105, item_tags = fx_tags\<rparr>]\<rparr>,
      [CallIsClient Quay ''quay.io/org/app'', CallTags Quay ''quay.io/org/app'',
       LogDebugf ''quay.io/org/app'', StoreImageCache ''quay.io/org/app'' Unlocked])"
  by (simp add: allTagsFromImage_def tryImageCache_def clientFromImage_def New_def
      fx_world_def fx_tags_def)

section \<open>Properties of the option fingerprint\<close>

declare digits.simps [simp del]

lemma sum32_loop_foldl:
  "sum32_loop hash data = foldl (\<lambda>h c. (h * 16777619) XOR ucast c) hash data"
  by (induction data arbitrary: hash) (simp_all add: prime32_def)

lemma decimal_value_snoc:
  "decimal_value (s @ [c]) = 10 * decimal_value s + (of_char c - 48)"
  by (simp add: decimal_value_def)

lemma decimal_value_digits: "decimal_value (digits n) = n"
proof (induction n rule: digits.induct)
  case (1 n)
  show ?case
  proof (cases "n < 10")
    case True
    then show ?thesis
      by (subst digits.simps) (simp add: decimal_value_def)
  next
    case False
    then have "decimal_value (digits (n div 10)) = n div 10" using 1 by simp
    moreover have "of_char (char_of (48 + n mod 10)) = 48 + n mod 10"
      by simp
    ultimately show ?thesis
      using False by (subst digits.simps) (simp add: decimal_value_snoc)
  qed
qed

lemma digits_nonempty: "digits n \<noteq> []"
  by (subst digits.simps) simp

lemma digits_all: "list_all (\<lambda>c. 48 \<le> (of_char c :: nat) \<and> (of_char c :: nat) \<le> 57) (digits n)"
proof (induction n rule: digits.induct)
  case (1 n)
  show ?case
  proof (cases "n < 10")
    case True
    then show ?thesis by (subst digits.simps) simp
  next
    case False
    moreover have "n mod 10 < 10" by simp
    ultimately show ?thesis
      using 1 by (subst digits.simps) simp
  qed
qed

lemma digits_hd: "0 < n \<Longrightarrow> hd (digits n) \<noteq> CHR ''0''"
proof (induction n rule: digits.induct)
  case (1 n)
  show ?case
  proof (cases "n < 10")
    case True
    have "of_char (hd (digits n)) = 48 + n"
      using True by (subst digits.simps) simp
    moreover have "of_char CHR ''0'' = (48 :: nat)" by simp
    ultimately show ?thesis using 1(2) by (metis add_cancel_right_right less_numeral_extra(3))
  next
    case False
    then have "0 < n div 10" by simp
    with 1 False have "hd (digits (n div 10)) \<noteq> CHR ''0''" by simp
    then show ?thesis
      using False digits_nonempty [of "n div 10"] by (subst digits.simps) simp
  qed
qed

lemma digits_is_decimal: "is_decimal (digits n)"
proof (cases "n = 0")
  case True
  then show ?thesis by (subst digits.simps) (simp add: is_decimal_def)
next
  case False
  then show ?thesis
    using digits_nonempty digits_all digits_hd by (simp add: is_decimal_def)
qed

lemma CalculateHashIndex_eq:
  "CalculateHashIndex json_Marshal imageURL opts =
     (case snd (json_Marshal opts) of
        Some e \<Rightarrow> ([], Some (FailedToMarshal e))
      | None \<Rightarrow>
          (digits (unat (fnv1_32 (fst (json_Marshal opts) @ bytes_of imageURL))), None))"
  by (simp add: CalculateHashIndex_def Write_def New32_def Sum32_def Sprintf_d_def
      sum32_loop_foldl fnv1_32_def offset32_def split: prod.splits option.splits)

text \<open>
  C8. \<^verbatim>\<open>CalculateHashIndex\<close> is a function of the URL and of the serialized options
  alone: two option values with the same serialization (structurally equal ones among
  them) get the same result for the same URL. When the serialization succeeds the
  result is no error and the decimal rendering of the 32-bit FNV-1 hash of the
  serialized options followed by the bytes of the URL; it is an error exactly when the
  serialization fails.
\<close>

theorem CalculateHashIndex_deterministic:
  "(json_Marshal opts = json_Marshal opts' \<longrightarrow>
      CalculateHashIndex json_Marshal imageURL opts =
        CalculateHashIndex json_Marshal imageURL opts')
   \<and> (snd (json_Marshal opts) = None \<longrightarrow>
        snd (CalculateHashIndex json_Marshal imageURL opts) = None
        \<and> is_decimal (fst (CalculateHashIndex json_Marshal imageURL opts))
        \<and> decimal_value (fst (CalculateHashIndex json_Marshal imageURL opts)) =
            unat (fnv1_32 (fst (json_Marshal opts) @ bytes_of imageURL)))
   \<and> ((snd (CalculateHashIndex json_Marshal imageURL opts) \<noteq> None) =
        (snd (json_Marshal opts) \<noteq> None))"
  by (simp add: CalculateHashIndex_eq digits_is_decimal decimal_value_digits
      split: option.splits)

lemma digit_chars:
  "char_of (48::nat) = CHR ''0''" "char_of (49::nat) = CHR ''1''"
  "char_of (50::nat) = CHR ''2''" "char_of (51::nat) = CHR ''3''"
  "char_of (52::nat) = CHR ''4''" "char_of (53::nat) = CHR ''5''"
  "char_of (54::nat) = CHR ''6''" "char_of (55::nat) = CHR ''7''"
  "char_of (56::nat) = CHR ''8''" "char_of (57::nat) = CHR ''9''"
  by code_simp+

theorem CalculateHashIndex_deterministic_witness:
  "fx_Marshal (Some fx_options) = fx_Marshal (Some (fx_options\<lparr>RegexMatcher := Some (\<lambda>s. True)\<rparr>))
   \<and> snd (fx_Marshal (Some fx_options)) = None
   \<and> CalculateHashIndex fx_Marshal ''quay.io/org/app'' (Some fx_options) =
       (''859894210'', None)
   \<and> CalculateHashIndex fx_Marshal ''quay.io/org/app''
        (Some (fx_options\<lparr>RegexMatcher := Some (\<lambda>s. True)\<rparr>)) = (''859894210'', None)
   \<and> unat (fnv1_32 (fst (fx_Marshal (Some fx_options)) @ bytes_of ''quay.io/org/app'')) =
       859894210
   \<and> unat (fnv1_32 (bytes_of ''a'')) = 84696446"
proof -
  have a: "fx_Marshal (Some fx_options) =
      fx_Marshal (Some (fx_options\<lparr>RegexMatcher := Some (\<lambda>s. True)\<rparr>))"
    by (simp add: fx_Marshal_def)
  have b: "snd (fx_Marshal (Some fx_options)) = None"
    by (simp add: fx_Marshal_def)
  have c: "CalculateHashIndex fx_Marshal ''quay.io/org/app'' (Some fx_options) =
       (''859894210'', None)"
    by (simp add: CalculateHashIndex_def Write_def New32_def Sum32_def Sprintf_d_def
      offset32_def prime32_def fx_Marshal_def bytes_of_def digits.simps digit_chars)
  have d: "CalculateHashIndex fx_Marshal ''quay.io/org/app''
        (Some (fx_options\<lparr>RegexMatcher := Some (\<lambda>s. True)\<rparr>)) = (''859894210'', None)"
    using CalculateHashIndex_deterministic [of fx_Marshal "Some fx_options"
        "Some (fx_options\<lparr>RegexMatcher := Some (\<lambda>s. True)\<rparr>)" "''quay.io/org/app''"] a c
    by simp
  have e: "unat (fnv1_32 (fst (fx_Marshal (Some fx_options)) @ bytes_of ''quay.io/org/app'')) =
       859894210"
    by (simp add: fnv1_32_def fx_Marshal_def bytes_of_def)
  have f: "unat (fnv1_32 (bytes_of ''a'')) = 84696446"
    by (simp add: fnv1_32_def bytes_of_def)
  show ?thesis using a b c d e f by simp
qed

end
